theory Spec2Isabelle
  imports Complex_Main
begin

section \<open>The task-queue scheduler of gravi-agent (src/features/scheduler.js)\<close>

text \<open>
  The class \<^verbatim>\<open>Scheduler\<close> is embedded as a record of its fields together with the part
  of the JavaScript runtime its methods act on: the arrays it is handed or allocates, the
  repeating timers made by \<^verbatim>\<open>setInterval\<close>, the one-off timers made by
  \<^verbatim>\<open>setTimeout\<close>, the activations of \<^verbatim>\<open>_executeCurrentItem\<close> that are suspended at
  their \<^verbatim>\<open>await\<close>, and everything the scheduler emits (log lines, notifications, prompts
  handed to the automation client).

  Every method is a function from world to world.  A value read from outside (a reading
  of \<^verbatim>\<open>Date.now()\<close>, the statistics returned by \<^verbatim>\<open>getStats()\<close>, the outcome of a send,
  the configuration of the workspace) is a parameter of the function, one parameter for
  each read, in the order of the reads.  Timestamps are integers (milliseconds); seconds
  and minutes are JavaScript numbers, taken here as reals.
\<close>

subsection \<open>Data\<close>

record scheduler_config =
  enabled :: bool
  mode :: string
  prompts :: "string list"
  silenceTimeout :: real
  intervalMinutes :: real
  intervalPrompt :: string

text \<open>What \<^verbatim>\<open>cdpHandler.getStats()\<close> returns; \<open>None\<close> is a field that is undefined.\<close>

record activity =
  lastActivity :: "int option"
  lastDomChange :: "int option"

text \<open>The callbacks the scheduler registers with \<^verbatim>\<open>setInterval\<close>.\<close>

datatype callback = CheckSilence | IntervalSend string

text \<open>
  What the scheduler emits, one constructor for each call site: \<^verbatim>\<open>this.log\<close>,
  \<^verbatim>\<open>showWarningMessage\<close>, \<^verbatim>\<open>showInformationMessage\<close> and \<^verbatim>\<open>cdpHandler.sendPrompt\<close>.
\<close>

datatype effect =
    LogConfigLoaded string nat
  | LogQueueEmpty
  | ShowWarning
  | LogQueueStart nat
  | LogQueueStop
  | LogPause
  | LogResume
  | LogSkip nat nat
  | LogExecute nat nat string
  | SendPrompt string
  | LogSendFailed nat nat string
  | LogRetryLimit
  | LogAllDone
  | ShowInformation nat
  | LogSilence int
  | LogIntervalUnset
  | LogIntervalStart real
  | LogIntervalSend string
  | LogIntervalStop

text \<open>
  The scheduler's fields come first, under the names of the source.  \<open>runtimeQueue\<close> is
  a reference into \<open>heap\<close>, as an array is in JavaScript; \<open>checkTimer\<close> and
  \<open>intervalTimer\<close> hold timer handles (objects, so a handle is always truthy and
  \<open>None\<close> is \<^verbatim>\<open>null\<close>).  Then the runtime: \<open>heap\<close> and the next free
  reference, the live \<^verbatim>\<open>setInterval\<close> timers (handle, callback, period in ms), the pending
  \<^verbatim>\<open>setTimeout\<close> callbacks \<^verbatim>\<open>() => this._executeCurrentItem(n)\<close> (the argument \<open>n\<close> and
  the delay in ms), the retry counts of the activations suspended at \<^verbatim>\<open>await sendPrompt\<close>,
  and the effects so far, oldest first.
\<close>

record world =
  isRunning :: bool
  isPaused :: bool
  queueIndex :: nat
  runtimeQueue :: nat
  lastActivityTime :: "int option"
  currentItemSentAt :: "int option"
  checkTimer :: "nat option"
  intervalTimer :: "nat option"
  config :: scheduler_config
  heap :: "nat \<Rightarrow> string list"
  nextRef :: nat
  intervals :: "(nat \<times> callback \<times> real) list"
  nextTimer :: nat
  timeouts :: "(nat \<times> nat) list"
  awaiting :: "nat list"
  out :: "effect list"

record status =
  st_isRunning :: bool
  st_isPaused :: bool
  st_mode :: string
  st_queueIndex :: nat
  st_queueLength :: nat
  st_prompts :: nat
  currentPrompt :: "string option"

subsection \<open>JavaScript primitives\<close>

text \<open>The array \<^verbatim>\<open>this.runtimeQueue\<close> refers to.\<close>

definition queue :: "world \<Rightarrow> string list" where
  "queue w = heap w (runtimeQueue w)"

definition emit :: "effect list \<Rightarrow> world \<Rightarrow> world" where
  "emit es w = w\<lparr>out := out w @ es\<rparr>"

text \<open>\<^verbatim>\<open>x || 0\<close> on a number that may be undefined.\<close>

definition or0 :: "int option \<Rightarrow> int" where
  "or0 x = (case x of None \<Rightarrow> 0 | Some n \<Rightarrow> n)"

text \<open>A field that is \<^verbatim>\<open>null\<close> or a number, used in arithmetic or a comparison: \<^verbatim>\<open>null\<close> is 0.\<close>

definition num :: "int option \<Rightarrow> int" where
  "num x = (case x of None \<Rightarrow> 0 | Some n \<Rightarrow> n)"

text \<open>The same field used as a condition: \<^verbatim>\<open>null\<close> and 0 are falsy.\<close>

definition truthy :: "int option \<Rightarrow> bool" where
  "truthy x = (case x of None \<Rightarrow> False | Some n \<Rightarrow> n \<noteq> 0)"

definition clearInterval :: "nat \<Rightarrow> (nat \<times> callback \<times> real) list \<Rightarrow> (nat \<times> callback \<times> real) list" where
  "clearInterval h ts = filter (\<lambda>e. fst e \<noteq> h) ts"

definition remove_nth :: "nat \<Rightarrow> 'a list \<Rightarrow> 'a list" where
  "remove_nth i xs = take i xs @ drop (Suc i) xs"

definition MAX_RETRIES :: nat where
  "MAX_RETRIES = 3"

subsection \<open>The methods of the class\<close>

text \<open>\<^verbatim>\<open>loadConfig\<close>; \<open>c\<close> is what the workspace configuration holds at the call.\<close>

definition loadConfig :: "scheduler_config \<Rightarrow> world \<Rightarrow> world" where
  "loadConfig c w = emit [LogConfigLoaded (mode c) (length (prompts c))] (w\<lparr>config := c\<rparr>)"

definition stopCheckTimer :: "world \<Rightarrow> world" where
  "stopCheckTimer w =
     (case checkTimer w of
        None \<Rightarrow> w
      | Some h \<Rightarrow> w\<lparr>intervals := clearInterval h (intervals w), checkTimer := None\<rparr>)"

definition startCheckTimer :: "world \<Rightarrow> world" where
  "startCheckTimer w =
     (let w1 = stopCheckTimer w; h = nextTimer w1
      in w1\<lparr>intervals := intervals w1 @ [(h, CheckSilence, 5000)],
             nextTimer := Suc h, checkTimer := Some h\<rparr>)"

definition onQueueComplete :: "world \<Rightarrow> world" where
  "onQueueComplete w =
     (let w1 = stopCheckTimer (w\<lparr>isRunning := False\<rparr>)
      in emit [LogAllDone, ShowInformation (length (queue w1))] w1)"

text \<open>
  \<^verbatim>\<open>_executeCurrentItem(retryCount)\<close> up to its \<^verbatim>\<open>await\<close>: \<open>t1\<close> and \<open>t2\<close> are the two
  readings of \<^verbatim>\<open>Date.now()\<close>.  The call of \<^verbatim>\<open>sendPrompt\<close> is emitted and the activation is
  suspended with its \<open>retryCount\<close>.
\<close>

definition executeCurrentItem :: "nat \<Rightarrow> int \<Rightarrow> int \<Rightarrow> world \<Rightarrow> world" where
  "executeCurrentItem retryCount t1 t2 w =
     (if \<not> isRunning w then w
      else if isPaused w then w
      else if queueIndex w \<ge> length (queue w) then onQueueComplete w
      else
        let prompt = queue w ! queueIndex w;
            w1 = emit [LogExecute (queueIndex w + 1) (length (queue w)) (take 60 prompt)] w;
            w2 = w1\<lparr>currentItemSentAt := Some t1, lastActivityTime := Some t2\<rparr>
        in (emit [SendPrompt prompt] w2)\<lparr>awaiting := awaiting w2 @ [retryCount]\<rparr>)"

definition advanceQueue :: "int \<Rightarrow> int \<Rightarrow> world \<Rightarrow> world" where
  "advanceQueue t1 t2 w =
     (let w1 = w\<lparr>queueIndex := queueIndex w + 1\<rparr>
      in if queueIndex w1 \<ge> length (queue w1) then onQueueComplete w1
         else executeCurrentItem 0 t1 t2 w1)"

text \<open>
  The rest of \<^verbatim>\<open>_executeCurrentItem(retryCount)\<close>, run when the awaited send settles with
  \<^verbatim>\<open>{success, error}\<close>; \<open>t1\<close> and \<open>t2\<close> are the clock readings of the execution that
  \<^verbatim>\<open>_advanceQueue\<close> may start.
\<close>

definition sendSettled :: "nat \<Rightarrow> bool \<Rightarrow> string \<Rightarrow> int \<Rightarrow> int \<Rightarrow> world \<Rightarrow> world" where
  "sendSettled retryCount success error t1 t2 w =
     (if \<not> success then
        let w1 = emit [LogSendFailed (retryCount + 1) MAX_RETRIES error] w
        in if retryCount < MAX_RETRIES - 1
           then w1\<lparr>timeouts := timeouts w1 @ [(retryCount + 1, 3000)]\<rparr>
           else advanceQueue t1 t2 (emit [LogRetryLimit] w1)
      else w)"

text \<open>
  \<^verbatim>\<open>startQueue(prompts)\<close>: the argument is a reference to the caller's array, or \<open>None\<close>
  when it is left out.  An array is truthy even when empty, so \<^verbatim>\<open>prompts || config.prompts\<close>
  takes the configured list only when the argument is missing.  \<^verbatim>\<open>[...items]\<close> allocates
  a new array.
\<close>

definition startQueue :: "nat option \<Rightarrow> int \<Rightarrow> int \<Rightarrow> world \<Rightarrow> world" where
  "startQueue prompts_arg t1 t2 w =
     (let items = (case prompts_arg of Some a \<Rightarrow> heap w a | None \<Rightarrow> prompts (config w))
      in if length items = 0 then emit [LogQueueEmpty, ShowWarning] w
         else
           let r = nextRef w;
               w1 = w\<lparr>heap := (heap w)(r := items), nextRef := Suc r, runtimeQueue := r\<rparr>;
               w2 = w1\<lparr>queueIndex := 0, isRunning := True, isPaused := False\<rparr>;
               w3 = emit [LogQueueStart (length (queue w2))] w2;
               w4 = executeCurrentItem 0 t1 t2 w3
           in startCheckTimer w4)"

definition stopQueue :: "world \<Rightarrow> world" where
  "stopQueue w = emit [LogQueueStop] (stopCheckTimer (w\<lparr>isRunning := False, isPaused := False\<rparr>))"

definition pauseQueue :: "world \<Rightarrow> world" where
  "pauseQueue w = (if \<not> isRunning w then w else emit [LogPause] (w\<lparr>isPaused := True\<rparr>))"

definition resumeQueue :: "int \<Rightarrow> int \<Rightarrow> world \<Rightarrow> world" where
  "resumeQueue t1 t2 w =
     (if \<not> isRunning w then w
      else if \<not> isPaused w then w
      else executeCurrentItem 0 t1 t2 (emit [LogResume] (w\<lparr>isPaused := False\<rparr>)))"

definition skipPrompt :: "int \<Rightarrow> int \<Rightarrow> world \<Rightarrow> world" where
  "skipPrompt t1 t2 w =
     (if \<not> isRunning w then w
      else advanceQueue t1 t2 (emit [LogSkip (queueIndex w + 1) (length (queue w))] w))"

text \<open>
  \<^verbatim>\<open>_checkSilence\<close>: \<open>t1\<close> and \<open>t2\<close> are its two readings of \<^verbatim>\<open>Date.now()\<close>, \<open>stats\<close> is
  what \<^verbatim>\<open>getStats()\<close> returns, \<open>t3\<close> and \<open>t4\<close> are the readings of the execution that
  \<^verbatim>\<open>_advanceQueue\<close> may start.  The method has no \<^verbatim>\<open>await\<close>, so it runs in one piece.
\<close>

definition checkSilence :: "int \<Rightarrow> int \<Rightarrow> activity \<Rightarrow> int \<Rightarrow> int \<Rightarrow> world \<Rightarrow> world" where
  "checkSilence t1 t2 stats t3 t4 w =
     (if \<not> isRunning w then w
      else if isPaused w then w
      else if \<not> truthy (currentItemSentAt w) then w
      else
        let elapsed = real_of_int (t1 - num (currentItemSentAt w)) / 1000
        in if elapsed < 10 then w
           else
             let latestActivity = max (or0 (lastActivity stats)) (or0 (lastDomChange stats));
                 w1 = (if latestActivity \<noteq> 0 \<and> latestActivity > num (lastActivityTime w)
                       then w\<lparr>lastActivityTime := Some latestActivity\<rparr> else w);
                 silenceSec = real_of_int (t2 - num (lastActivityTime w1)) / 1000
             in if silenceSec \<ge> silenceTimeout (config w1)
                then advanceQueue t3 t4 (emit [LogSilence (round silenceSec)] w1)
                else w1)"

definition stopInterval :: "world \<Rightarrow> world" where
  "stopInterval w =
     (case intervalTimer w of
        None \<Rightarrow> w
      | Some h \<Rightarrow>
          emit [LogIntervalStop] (w\<lparr>intervals := clearInterval h (intervals w), intervalTimer := None\<rparr>))"

definition startInterval :: "world \<Rightarrow> world" where
  "startInterval w =
     (let w0 = stopInterval w;
          ms = intervalMinutes (config w0) * 60 * 1000;
          prompt = intervalPrompt (config w0)
      in if prompt = [] then emit [LogIntervalUnset] w0
         else
           let w1 = emit [LogIntervalStart (intervalMinutes (config w0))] w0;
               h = nextTimer w1
           in w1\<lparr>intervals := intervals w1 @ [(h, IntervalSend prompt, ms)],
                  nextTimer := Suc h, intervalTimer := Some h\<rparr>)"

text \<open>The callback of the interval timer; the outcome of its send is dropped.\<close>

definition intervalFire :: "string \<Rightarrow> world \<Rightarrow> world" where
  "intervalFire prompt w = emit [LogIntervalSend (take 60 prompt), SendPrompt prompt] w"

definition stop :: "world \<Rightarrow> world" where
  "stop w = stopInterval (stopQueue w)"

text \<open>
  \<^verbatim>\<open>getStatus\<close>.  In \<^verbatim>\<open>this.runtimeQueue[this.queueIndex] || null\<close> an index out of range
  reads \<^verbatim>\<open>undefined\<close>, and of the strings only the empty one is falsy.
\<close>

definition getStatus :: "world \<Rightarrow> status" where
  "getStatus w =
     \<lparr>st_isRunning = isRunning w,
      st_isPaused = isPaused w,
      st_mode = mode (config w),
      st_queueIndex = queueIndex w,
      st_queueLength = length (queue w),
      st_prompts = runtimeQueue w,
      currentPrompt =
        (if queueIndex w < length (queue w)
         then (if queue w ! queueIndex w = [] then None else Some (queue w ! queueIndex w))
         else None)\<rparr>"

text \<open>
  The constructor: the fields as the source initialises them, an empty array for
  \<open>runtimeQueue\<close>, then \<^verbatim>\<open>loadConfig\<close>.
\<close>

definition init :: "scheduler_config \<Rightarrow> world" where
  "init c =
     loadConfig c
       \<lparr>isRunning = False, isPaused = False, queueIndex = 0, runtimeQueue = 0,
        lastActivityTime = None, currentItemSentAt = None,
        checkTimer = None, intervalTimer = None, config = c,
        heap = (\<lambda>_. []), nextRef = 1, intervals = [], nextTimer = 0,
        timeouts = [], awaiting = [], out = []\<rparr>"

subsection \<open>The event loop\<close>

text \<open>
  One event is one callback run to completion: a call of a public method by the host, a
  timer firing, or an awaited send settling.  \<open>NewArray\<close> is the host allocating an array
  (to pass to \<^verbatim>\<open>startQueue\<close>), \<open>arrayWrite\<close> the host overwriting an array it holds.  A
  timer that is not live cannot fire, and a send that is not awaited cannot settle: such
  events leave the world as it is.
\<close>

datatype event =
    StartQueue "nat option" int int
  | StopQueue
  | PauseQueue
  | ResumeQueue int int
  | SkipPrompt int int
  | StartInterval
  | StopInterval
  | Stop
  | LoadConfig scheduler_config
  | NewArray "string list"
  | IntervalTimerFires nat int int activity int int
  | TimeoutFires nat int int
  | SendSettles nat bool string int int

definition newArray :: "string list \<Rightarrow> world \<Rightarrow> world" where
  "newArray xs w = w\<lparr>heap := (heap w)(nextRef w := xs), nextRef := Suc (nextRef w)\<rparr>"

definition arrayWrite :: "nat \<Rightarrow> string list \<Rightarrow> world \<Rightarrow> world" where
  "arrayWrite a xs w = w\<lparr>heap := (heap w)(a := xs)\<rparr>"

fun step :: "event \<Rightarrow> world \<Rightarrow> world" where
  "step (StartQueue p t1 t2) w = startQueue p t1 t2 w"
| "step StopQueue w = stopQueue w"
| "step PauseQueue w = pauseQueue w"
| "step (ResumeQueue t1 t2) w = resumeQueue t1 t2 w"
| "step (SkipPrompt t1 t2) w = skipPrompt t1 t2 w"
| "step StartInterval w = startInterval w"
| "step StopInterval w = stopInterval w"
| "step Stop w = stop w"
| "step (LoadConfig c) w = loadConfig c w"
| "step (NewArray xs) w = newArray xs w"
| "step (IntervalTimerFires h t1 t2 stats t3 t4) w =
     (case map_of (intervals w) h of
        None \<Rightarrow> w
      | Some (CheckSilence, _) \<Rightarrow> checkSilence t1 t2 stats t3 t4 w
      | Some (IntervalSend p, _) \<Rightarrow> intervalFire p w)"
| "step (TimeoutFires i t1 t2) w =
     (if i < length (timeouts w)
      then executeCurrentItem (fst (timeouts w ! i)) t1 t2 (w\<lparr>timeouts := remove_nth i (timeouts w)\<rparr>)
      else w)"
| "step (SendSettles i success error t1 t2) w =
     (if i < length (awaiting w)
      then sendSettled (awaiting w ! i) success error t1 t2 (w\<lparr>awaiting := remove_nth i (awaiting w)\<rparr>)
      else w)"

fun run :: "event list \<Rightarrow> world \<Rightarrow> world" where
  "run [] w = w"
| "run (e # es) w = run es (step e w)"

subsection \<open>Auxiliary notions for the properties\<close>

text \<open>The configuration \<^verbatim>\<open>loadConfig\<close> reads when no setting is present: its defaults.\<close>

definition default_config :: scheduler_config where
  "default_config =
     \<lparr>enabled = False, mode = ''queue'', prompts = [], silenceTimeout = 30,
      intervalMinutes = 30, intervalPrompt = ''''\<rparr>"

text \<open>The handles of the live timers whose callback is \<^verbatim>\<open>_checkSilence\<close>.\<close>

definition isCheck :: "nat \<times> callback \<times> real \<Rightarrow> bool" where
  "isCheck e = (fst (snd e) = CheckSilence)"

definition checkHandles :: "(nat \<times> callback \<times> real) list \<Rightarrow> nat list" where
  "checkHandles ts = map fst (filter isCheck ts)"

definition checkTimers :: "world \<Rightarrow> nat list" where
  "checkTimers w = checkHandles (intervals w)"

text \<open>
  The timer discipline: every live handle was issued before \<open>nextTimer\<close>, the live
  silence-check timers are exactly the one held in \<open>checkTimer\<close>, and the handle held in
  \<open>intervalTimer\<close> is not a silence-check timer.
\<close>

definition timers_inv :: "(nat \<times> callback \<times> real) list \<Rightarrow> nat \<Rightarrow> nat option \<Rightarrow> nat option \<Rightarrow> bool" where
  "timers_inv ts n ct it =
     (list_all (\<lambda>e. fst e < n) ts \<and>
      checkHandles ts = (case ct of None \<Rightarrow> [] | Some h \<Rightarrow> [h]) \<and>
      (case it of None \<Rightarrow> True | Some h \<Rightarrow> h < n \<and> h \<notin> set (checkHandles ts)))"

definition timers_ok :: "world \<Rightarrow> bool" where
  "timers_ok w = timers_inv (intervals w) (nextTimer w) (checkTimer w) (intervalTimer w)"

text \<open>
  The retry discipline: every attempt in flight and every scheduled retry carries an
  attempt index below \<open>MAX_RETRIES\<close>, and every retry was scheduled with a delay of 3000 ms.
\<close>

definition retry_ok :: "world \<Rightarrow> bool" where
  "retry_ok w =
     (list_all (\<lambda>n. n < MAX_RETRIES) (awaiting w) \<and>
      list_all (\<lambda>x. fst x < MAX_RETRIES \<and> snd x = 3000) (timeouts w))"

text \<open>The state of the queue run: the six fields a run works on.\<close>

definition runState :: "world \<Rightarrow> bool \<times> bool \<times> nat \<times> string list \<times> int option \<times> int option" where
  "runState w = (isRunning w, isPaused w, queueIndex w, queue w, currentItemSentAt w, lastActivityTime w)"

text \<open>A sample of \<^verbatim>\<open>getStats()\<close> that reports no activity.\<close>

definition quiet :: activity where
  "quiet = \<lparr>lastActivity = Some 0, lastDomChange = Some 0\<rparr>"

text \<open>
  Scenarios.  The configured queue of the two prompts A and B; a run that is paused and
  resumed three times; and a run whose first prompt fails once and is skipped while its
  retry is pending, after which the attempts of the second prompt fail.
\<close>

definition two_prompts :: scheduler_config where
  "two_prompts = default_config\<lparr>prompts := [''A'', ''B'']\<rparr>"

definition resumed_thrice :: "event list" where
  "resumed_thrice =
     [StartQueue None 1000 1000,
      PauseQueue, ResumeQueue 2000 2000,
      PauseQueue, ResumeQueue 3000 3000,
      PauseQueue, ResumeQueue 4000 4000]"

definition skip_during_retry :: "event list" where
  "skip_during_retry =
     [StartQueue None 1000 1000,
      SendSettles 0 False ''down'' 1500 1500,
      SkipPrompt 2000 2000,
      TimeoutFires 0 4500 4500,
      SendSettles 0 False ''down'' 4600 4600,
      SendSettles 0 False ''down'' 4700 4700,
      TimeoutFires 0 7600 7600,
      TimeoutFires 0 7700 7700]"

section \<open>Properties\<close>

subsection \<open>Stale callbacks\<close>

lemma executeCurrentItem_not_running: "\<not> isRunning w \<Longrightarrow> executeCurrentItem n t1 t2 w = w"
  by (simp add: executeCurrentItem_def)

lemma executeCurrentItem_paused: "isPaused w \<Longrightarrow> executeCurrentItem n t1 t2 w = w"
  by (simp add: executeCurrentItem_def)

lemma checkSilence_not_running: "\<not> isRunning w \<Longrightarrow> checkSilence t1 t2 s t3 t4 w = w"
  by (simp add: checkSilence_def)

lemma checkSilence_paused: "isPaused w \<Longrightarrow> checkSilence t1 t2 s t3 t4 w = w"
  by (simp add: checkSilence_def)

lemmas method_defs = loadConfig_def emit_def startQueue_def executeCurrentItem_def queue_def
  startCheckTimer_def stopCheckTimer_def pauseQueue_def resumeQueue_def skipPrompt_def
  advanceQueue_def onQueueComplete_def sendSettled_def MAX_RETRIES_def remove_nth_def
  stopQueue_def clearInterval_def init_def default_config_def

text \<open>
  C1.  The code lets \<open>queueIndex\<close> pass the length of \<open>runtimeQueue\<close>.  The queue holds the
  one prompt A; its send fails twice and is retried twice; while the third attempt is in
  flight the prompt is skipped, which completes the run with \<open>queueIndex = 1\<close>; then the
  third attempt fails.  The rest of \<^verbatim>\<open>_executeCurrentItem\<close> does not look at \<open>isRunning\<close>
  again and calls \<^verbatim>\<open>_advanceQueue\<close>: \<open>queueIndex\<close> becomes 2 in a queue of length 1, and
  the completion notification is shown a second time.
\<close>

theorem late_failure_overruns_queue:
  "let w0 = run [StartQueue None 1000 1000,
                 SendSettles 0 False ''down'' 1500 1500, TimeoutFires 0 4500 4500,
                 SendSettles 0 False ''down'' 5000 5000, TimeoutFires 0 8000 8000,
                 SkipPrompt 8200 8200]
              (init (default_config\<lparr>prompts := [''A'']\<rparr>));
       w1 = step (SendSettles 0 False ''down'' 8500 8500) w0
   in \<not> isRunning w0 \<and> queueIndex w0 = 1 \<and> length (queue w0) = 1 \<and> awaiting w0 = [2] \<and>
      queueIndex w1 = 2 \<and> length (queue w1) = 1 \<and>
      filter (\<lambda>e. e = ShowInformation 1) (out w1) = [ShowInformation 1, ShowInformation 1]"
  by (simp add: method_defs Let_def)

text \<open>
  C2.  The code reaches a state that is paused and not running.  A queue of one prompt is
  started, paused, and its prompt skipped: \<^verbatim>\<open>_advanceQueue\<close> completes the queue, and
  \<^verbatim>\<open>_onQueueComplete\<close> clears \<open>isRunning\<close> but, unlike \<^verbatim>\<open>stopQueue\<close>, leaves \<open>isPaused\<close> set.
\<close>

theorem completion_while_paused_stays_paused:
  "let w = run [StartQueue None 1000 1000, PauseQueue, SkipPrompt 2000 2000]
             (init (default_config\<lparr>prompts := [''A'']\<rparr>))
   in isPaused w \<and> \<not> isRunning w \<and> queueIndex w = length (queue w)"
  by (simp add: method_defs Let_def)

text \<open>
  C3.  After \<^verbatim>\<open>stopQueue\<close> a send that settles late still changes the state.  With the third
  attempt of the only prompt in flight the queue is stopped; the attempt then fails, and
  the rest of \<^verbatim>\<open>_executeCurrentItem\<close> advances \<open>queueIndex\<close> from 0 to 1 and shows the
  completion notification.
\<close>

theorem late_failure_after_stop_mutates:
  "let w0 = run [StartQueue None 1000 1000,
                 SendSettles 0 False ''down'' 1500 1500, TimeoutFires 0 4500 4500,
                 SendSettles 0 False ''down'' 5000 5000, TimeoutFires 0 8000 8000,
                 StopQueue]
              (init (default_config\<lparr>prompts := [''A'']\<rparr>));
       w1 = step (SendSettles 0 False ''down'' 8500 8500) w0
   in \<not> isRunning w0 \<and> awaiting w0 = [2] \<and> queueIndex w0 = 0 \<and> queueIndex w1 = 1 \<and>
      out w1 = out w0 @ [LogSendFailed 3 3 ''down'', LogRetryLimit, LogAllDone, ShowInformation 1]"
  by (simp add: method_defs Let_def)

subsection \<open>The status projection\<close>

lemma getStatus_currentPrompt:
  "currentPrompt (getStatus w) =
     (if queueIndex w < length (queue w) \<and> queue w ! queueIndex w \<noteq> []
      then Some (queue w ! queueIndex w) else None)"
  by (simp add: getStatus_def)

text \<open>
  C8.  When the current item is the empty string, \<^verbatim>\<open>getStatus\<close> reports no current prompt.
  A queue holding the empty string is started: the run is in progress at index 0, the item
  there is the empty string, and \<open>currentPrompt\<close> is null.
\<close>

theorem empty_prompt_reported_as_null:
  "let w = run [StartQueue None 1000 1000] (init (default_config\<lparr>prompts := ['''']\<rparr>))
   in isRunning w \<and> queueIndex w < length (queue w) \<and> queue w ! queueIndex w = '''' \<and>
      out w = [LogConfigLoaded ''queue'' 1, LogQueueStart 1, LogExecute 1 1 '''', SendPrompt ''''] \<and>
      currentPrompt (getStatus w) = None"
  by (simp add: method_defs getStatus_def Let_def)

subsection \<open>Starting an empty queue\<close>

text \<open>
  C9.  When the list \<^verbatim>\<open>startQueue\<close> resolves (its argument, else the configured prompts) is
  empty, the call emits the log line and the warning and nothing else: no prompt is sent,
  and every field of the scheduler and of the runtime keeps its value.
\<close>

theorem startQueue_empty:
  assumes "(case p of Some a \<Rightarrow> heap w a | None \<Rightarrow> prompts (config w)) = []"
  shows "out (startQueue p t1 t2 w) = out w @ [LogQueueEmpty, ShowWarning] \<and>
         (startQueue p t1 t2 w)\<lparr>out := out w\<rparr> = w \<and>
         isRunning (startQueue p t1 t2 w) = isRunning w \<and>
         isPaused (startQueue p t1 t2 w) = isPaused w \<and>
         queueIndex (startQueue p t1 t2 w) = queueIndex w \<and>
         queue (startQueue p t1 t2 w) = queue w"
  using assms by (simp add: startQueue_def emit_def queue_def)

theorem startQueue_empty_witness:
  "prompts (config (init default_config)) = [] \<and>
   out (startQueue None 5 5 (init default_config)) =
     [LogConfigLoaded ''queue'' 0, LogQueueEmpty, ShowWarning] \<and>
   \<not> isRunning (startQueue None 5 5 (init default_config))"
  using startQueue_empty [where p = None and w = "init default_config" and ?t1.0 = 5 and ?t2.0 = 5]
  by (simp add: init_def default_config_def loadConfig_def emit_def)

subsection \<open>The timer discipline\<close>

subsection \<open>What advancing the queue changes\<close>

lemma remove_nth_snoc [simp]: "remove_nth (length xs) (xs @ [x]) = xs"
  by (simp add: remove_nth_def)

lemma queue_advanceQueue [simp]: "queue (advanceQueue t1 t2 w) = queue w"
  by (simp add: advanceQueue_def executeCurrentItem_def onQueueComplete_def stopCheckTimer_def
      emit_def queue_def Let_def split: option.splits)

lemma timeouts_advanceQueue [simp]: "timeouts (advanceQueue t1 t2 w) = timeouts w"
  by (simp add: advanceQueue_def executeCurrentItem_def onQueueComplete_def stopCheckTimer_def
      emit_def queue_def Let_def split: option.splits)

lemma queueIndex_advanceQueue [simp]: "queueIndex (advanceQueue t1 t2 w) = queueIndex w + 1"
  by (simp add: advanceQueue_def executeCurrentItem_def onQueueComplete_def stopCheckTimer_def
      emit_def queue_def Let_def split: option.splits)

lemma lastActivityTime_onQueueComplete [simp]:
  "lastActivityTime (onQueueComplete w) = lastActivityTime w"
  by (simp add: onQueueComplete_def stopCheckTimer_def emit_def Let_def split: option.splits)

lemma queueIndex_onQueueComplete [simp]:
  "queueIndex (onQueueComplete w) = queueIndex w"
  by (simp add: onQueueComplete_def stopCheckTimer_def emit_def Let_def split: option.splits)

lemma lastActivityTime_advanceQueue:
  "lastActivityTime (advanceQueue t3 t4 w) = lastActivityTime w \<or>
   lastActivityTime (advanceQueue t3 t4 w) = Some t4"
  by (simp add: advanceQueue_def executeCurrentItem_def emit_def Let_def)

text \<open>The state right after a queue of the two prompts A and B is started at time 1000.\<close>

lemma started_AB:
  "prompts c = [''A'', ''B''] \<Longrightarrow>
   run [StartQueue None 1000 1000] (init c) =
   \<lparr>isRunning = True, isPaused = False, queueIndex = 0, runtimeQueue = Suc 0,
    lastActivityTime = Some 1000, currentItemSentAt = Some 1000,
    checkTimer = Some 0, intervalTimer = None, config = c,
    heap = (\<lambda>_. [])(Suc 0 := [''A'', ''B'']), nextRef = Suc (Suc 0),
    intervals = [(0, CheckSilence, 5000)], nextTimer = Suc 0,
    timeouts = [], awaiting = [0],
    out = [LogConfigLoaded (mode c) 2, LogQueueStart 2, LogExecute 1 2 ''A'', SendPrompt ''A'']\<rparr>"
  by (simp add: loadConfig_def emit_def startQueue_def executeCurrentItem_def queue_def
      startCheckTimer_def stopCheckTimer_def init_def Let_def)

lemma two_prompts_prompts: "prompts two_prompts = [''A'', ''B'']"
  by (simp add: two_prompts_def)
lemma checkHandles_clear:
  "checkHandles (clearInterval h ts) = filter (\<lambda>x. x \<noteq> h) (checkHandles ts)"
  by (induction ts) (auto simp: clearInterval_def checkHandles_def)

lemma checkHandles_snoc_check: "checkHandles (ts @ [(h, CheckSilence, p)]) = checkHandles ts @ [h]"
  by (simp add: checkHandles_def isCheck_def)

lemma checkHandles_snoc_send: "checkHandles (ts @ [(h, IntervalSend q, p)]) = checkHandles ts"
  by (simp add: checkHandles_def isCheck_def)

lemma filter_absent: "h \<notin> set xs \<Longrightarrow> filter (\<lambda>x. x \<noteq> h) xs = xs"
  by (induction xs) auto

lemma below_clear: "list_all (\<lambda>e. fst e < n) ts \<Longrightarrow> list_all (\<lambda>e. fst e < n) (clearInterval h ts)"
  by (simp add: clearInterval_def list_all_iff)

lemma below_Suc: "list_all (\<lambda>e. fst e < n) ts \<Longrightarrow> list_all (\<lambda>e. fst e < Suc n) (ts :: (nat \<times> callback \<times> real) list)"
  by (auto simp: list_all_iff)

lemma handles_below: "list_all (\<lambda>e. fst e < n) ts \<Longrightarrow> n \<notin> set (checkHandles ts)"
  by (auto simp: checkHandles_def list_all_iff)

lemma timers_inv_stopCheck:
  assumes "timers_inv ts n ct it"
  shows "timers_inv (case ct of None \<Rightarrow> ts | Some h \<Rightarrow> clearInterval h ts) n None it"
proof (cases ct)
  case None
  with assms show ?thesis by (simp add: timers_inv_def)
next
  case (Some h)
  with assms have "checkHandles (clearInterval h ts) = []"
    by (simp add: timers_inv_def checkHandles_clear)
  with assms Some show ?thesis
    by (simp add: timers_inv_def below_clear split: option.splits)
qed

lemma timers_inv_setCheck:
  assumes "timers_inv ts n None it"
  shows "timers_inv (ts @ [(n, CheckSilence, p)]) (Suc n) (Some n) it"
  using assms
  by (auto simp: timers_inv_def checkHandles_snoc_check below_Suc split: option.splits)

lemma timers_inv_stopInterval:
  assumes "timers_inv ts n ct it"
  shows "timers_inv (case it of None \<Rightarrow> ts | Some h \<Rightarrow> clearInterval h ts) n ct None"
proof (cases it)
  case None
  with assms show ?thesis by (simp add: timers_inv_def)
next
  case (Some h)
  from assms have "case it of None \<Rightarrow> True | Some h \<Rightarrow> h < n \<and> h \<notin> set (checkHandles ts)"
    unfolding timers_inv_def by blast
  with Some have "h \<notin> set (checkHandles ts)"
    by simp
  then have eq: "checkHandles (clearInterval h ts) = checkHandles ts"
    by (simp add: checkHandles_clear filter_absent)
  from assms have 1: "list_all (\<lambda>e. fst e < n) ts"
    and 2: "checkHandles ts = (case ct of None \<Rightarrow> [] | Some h \<Rightarrow> [h])"
    by (simp_all add: timers_inv_def)
  from eq 2 have 3: "checkHandles (clearInterval h ts) = (case ct of None \<Rightarrow> [] | Some h \<Rightarrow> [h])"
    by (rule trans)
  show ?thesis
    unfolding timers_inv_def Some using below_clear [OF 1] 3 by simp
qed

lemma timers_inv_setInterval:
  assumes "timers_inv ts n ct None"
  shows "timers_inv (ts @ [(n, IntervalSend q, p)]) (Suc n) ct (Some n)"
proof -
  from assms have "list_all (\<lambda>e. fst e < n) ts"
    by (simp add: timers_inv_def)
  then have "n \<notin> set (checkHandles ts)"
    by (rule handles_below)
  with assms show ?thesis
    by (simp add: timers_inv_def checkHandles_snoc_send below_Suc)
qed

lemma timers_ok_upd [simp]:
  "timers_ok (isRunning_update f1 w) = timers_ok w"
  "timers_ok (isPaused_update f2 w) = timers_ok w"
  "timers_ok (queueIndex_update f3 w) = timers_ok w"
  "timers_ok (runtimeQueue_update f4 w) = timers_ok w"
  "timers_ok (lastActivityTime_update f5 w) = timers_ok w"
  "timers_ok (currentItemSentAt_update f6 w) = timers_ok w"
  "timers_ok (config_update f7 w) = timers_ok w"
  "timers_ok (heap_update f8 w) = timers_ok w"
  "timers_ok (nextRef_update f9 w) = timers_ok w"
  "timers_ok (timeouts_update f10 w) = timers_ok w"
  "timers_ok (awaiting_update f11 w) = timers_ok w"
  "timers_ok (out_update f12 w) = timers_ok w"
  by (simp_all add: timers_ok_def)

lemma timers_ok_stopCheckTimer: "timers_ok w \<Longrightarrow> timers_ok (stopCheckTimer w)"
  using timers_inv_stopCheck [of "intervals w" "nextTimer w" "checkTimer w" "intervalTimer w"]
  by (cases "checkTimer w") (simp_all add: timers_ok_def stopCheckTimer_def)

lemma timers_ok_startCheckTimer: "timers_ok w \<Longrightarrow> timers_ok (startCheckTimer w)"
proof -
  assume "timers_ok w"
  then have "timers_ok (stopCheckTimer w)" by (rule timers_ok_stopCheckTimer)
  moreover have "checkTimer (stopCheckTimer w) = None"
    by (simp add: stopCheckTimer_def split: option.splits)
  ultimately show ?thesis
    using timers_inv_setCheck [of "intervals (stopCheckTimer w)" "nextTimer (stopCheckTimer w)"
        "intervalTimer (stopCheckTimer w)" 5000]
    by (simp add: timers_ok_def startCheckTimer_def Let_def)
qed

lemma timers_ok_stopInterval: "timers_ok w \<Longrightarrow> timers_ok (stopInterval w)"
  using timers_inv_stopInterval [of "intervals w" "nextTimer w" "checkTimer w" "intervalTimer w"]
  by (cases "intervalTimer w") (simp_all add: timers_ok_def stopInterval_def emit_def)

lemma timers_ok_startInterval: "timers_ok w \<Longrightarrow> timers_ok (startInterval w)"
proof -
  assume "timers_ok w"
  then have "timers_ok (stopInterval w)" by (rule timers_ok_stopInterval)
  moreover have "intervalTimer (stopInterval w) = None"
    by (simp add: stopInterval_def emit_def split: option.splits)
  ultimately show ?thesis
    using timers_inv_setInterval [of "intervals (stopInterval w)" "nextTimer (stopInterval w)"
        "checkTimer (stopInterval w)"]
    by (simp add: timers_ok_def startInterval_def Let_def emit_def)
qed

lemma timers_ok_onQueueComplete: "timers_ok w \<Longrightarrow> timers_ok (onQueueComplete w)"
proof -
  assume a: "timers_ok w"
  have "timers_ok (w\<lparr>isRunning := False\<rparr>)" using a by (simp add: timers_ok_def)
  then have "timers_ok (stopCheckTimer (w\<lparr>isRunning := False\<rparr>))" by (rule timers_ok_stopCheckTimer)
  then show ?thesis by (simp add: onQueueComplete_def Let_def emit_def timers_ok_def)
qed

lemma timers_ok_executeCurrentItem: "timers_ok w \<Longrightarrow> timers_ok (executeCurrentItem n t1 t2 w)"
  using timers_ok_onQueueComplete [of w]
  by (simp add: executeCurrentItem_def Let_def emit_def timers_ok_def)

lemma timers_ok_advanceQueue: "timers_ok w \<Longrightarrow> timers_ok (advanceQueue t1 t2 w)"
proof -
  assume a: "timers_ok w"
  have b: "timers_ok (w\<lparr>queueIndex := queueIndex w + 1\<rparr>)" using a by (simp add: timers_ok_def)
  show ?thesis using timers_ok_onQueueComplete [OF b] timers_ok_executeCurrentItem [OF b]
    by (simp add: advanceQueue_def Let_def)
qed

lemma timers_ok_emit: "timers_ok (emit es w) = timers_ok w"
  by (simp add: timers_ok_def emit_def)

lemma timers_ok_startQueue: "timers_ok w \<Longrightarrow> timers_ok (startQueue p t1 t2 w)"
proof -
  assume a: "timers_ok w"
  have b: "timers_ok (emit es (w\<lparr>heap := hp, nextRef := r, runtimeQueue := q, queueIndex := 0,
            isRunning := True, isPaused := False\<rparr>))" for es hp r q
    using a by (simp add: timers_ok_def emit_def)
  show ?thesis
    unfolding startQueue_def Let_def
    by (auto intro!: timers_ok_startCheckTimer timers_ok_executeCurrentItem b simp: timers_ok_emit a)
qed

lemma timers_ok_stopQueue: "timers_ok w \<Longrightarrow> timers_ok (stopQueue w)"
proof -
  assume a: "timers_ok w"
  have "timers_ok (w\<lparr>isRunning := False, isPaused := False\<rparr>)" using a by (simp add: timers_ok_def)
  then show ?thesis by (simp add: stopQueue_def timers_ok_emit timers_ok_stopCheckTimer)
qed

lemma timers_ok_checkSilence: "timers_ok w \<Longrightarrow> timers_ok (checkSilence t1 t2 s t3 t4 w)"
proof -
  assume a: "timers_ok w"
  have b: "timers_ok (w\<lparr>lastActivityTime := x\<rparr>)" for x using a by (simp add: timers_ok_def)
  show ?thesis using a b
    by (simp add: checkSilence_def Let_def timers_ok_advanceQueue timers_ok_emit)
qed

lemma timers_ok_sendSettled: "timers_ok w \<Longrightarrow> timers_ok (sendSettled n ok err t1 t2 w)"
proof -
  assume a: "timers_ok w"
  have b: "timers_ok ((emit es w)\<lparr>timeouts := x\<rparr>)" for x es using a by (simp add: timers_ok_def emit_def)
  show ?thesis using a b
    by (simp add: sendSettled_def Let_def timers_ok_advanceQueue timers_ok_emit)
qed

lemma timers_ok_step: "timers_ok w \<Longrightarrow> timers_ok (step e w)"
proof (cases e)
  case (IntervalTimerFires h t1 t2 s t3 t4)
  assume "timers_ok w"
  then show ?thesis using IntervalTimerFires
    by (auto simp: timers_ok_checkSilence intervalFire_def timers_ok_emit split: option.splits callback.splits)
next
  case (TimeoutFires i t1 t2)
  assume a: "timers_ok w"
  have "timers_ok (w\<lparr>timeouts := x\<rparr>)" for x using a by (simp add: timers_ok_def)
  then show ?thesis using TimeoutFires a by (simp add: timers_ok_executeCurrentItem)
next
  case (SendSettles i ok err t1 t2)
  assume a: "timers_ok w"
  have "timers_ok (w\<lparr>awaiting := x\<rparr>)" for x using a by (simp add: timers_ok_def)
  then show ?thesis using SendSettles a by (simp add: timers_ok_sendSettled)
qed (simp_all add: timers_ok_startQueue timers_ok_stopQueue timers_ok_startInterval timers_ok_stopInterval
      stop_def pauseQueue_def resumeQueue_def skipPrompt_def loadConfig_def newArray_def
      timers_ok_emit timers_ok_executeCurrentItem timers_ok_advanceQueue timers_ok_def [of "_\<lparr>config := _\<rparr>"])

lemma timers_ok_init: "timers_ok (init c)"
  by (simp add: timers_ok_def timers_inv_def init_def loadConfig_def emit_def checkHandles_def)

lemma timers_ok_run: "timers_ok w \<Longrightarrow> timers_ok (run es w)"
  by (induction es arbitrary: w) (simp_all add: timers_ok_step)

lemma timers_ok_reachable: "timers_ok (run es (init c))"
  by (simp add: timers_ok_run timers_ok_init)

lemma timers_ok_at_most_one: "timers_ok w \<Longrightarrow> length (checkTimers w) \<le> 1"
  by (simp add: timers_ok_def timers_inv_def checkTimers_def split: option.splits)

lemma stopCheckTimer_none_live: "timers_ok w \<Longrightarrow> checkTimers (stopCheckTimer w) = []"
  using timers_ok_stopCheckTimer [of w]
  by (simp add: timers_ok_def timers_inv_def checkTimers_def stopCheckTimer_def split: option.splits)

lemma startQueue_nonempty:
  assumes "items = (case p of Some a \<Rightarrow> heap w a | None \<Rightarrow> prompts (config w))" and "items \<noteq> []"
  shows "startQueue p t1 t2 w =
     startCheckTimer
       (w\<lparr>heap := (heap w)(nextRef w := items), nextRef := Suc (nextRef w), runtimeQueue := nextRef w,
          queueIndex := 0, isRunning := True, isPaused := False,
          currentItemSentAt := Some t1, lastActivityTime := Some t2,
          out := out w @ [LogQueueStart (length items), LogExecute 1 (length items) (take 60 (items ! 0)),
                          SendPrompt (items ! 0)],
          awaiting := awaiting w @ [0]\<rparr>)"
  using assms by (simp add: startQueue_def executeCurrentItem_def emit_def queue_def Let_def)

lemma startCheckTimer_fields:
  "isRunning (startCheckTimer w) = isRunning w"
  "isPaused (startCheckTimer w) = isPaused w"
  "queueIndex (startCheckTimer w) = queueIndex w"
  "runtimeQueue (startCheckTimer w) = runtimeQueue w"
  "heap (startCheckTimer w) = heap w"
  "out (startCheckTimer w) = out w"
  "awaiting (startCheckTimer w) = awaiting w"
  "checkTimer (startCheckTimer w) = Some (nextTimer w)"
  by (simp_all add: startCheckTimer_def stopCheckTimer_def Let_def split: option.splits)

lemma startCheckTimer_one_live:
  assumes "timers_ok w"
  shows "checkTimers (startCheckTimer w) = [nextTimer w]"
  using timers_ok_startCheckTimer [OF assms]
  by (simp add: timers_ok_def timers_inv_def checkTimers_def startCheckTimer_fields)

lemma startCheckTimer_old_handle_dead:
  assumes "timers_ok w" and "checkTimer w = Some h"
  shows "h \<notin> set (map fst (intervals (startCheckTimer w)))"
proof -
  from assms have "h \<in> set (checkHandles (intervals w))"
    by (simp add: timers_ok_def timers_inv_def)
  moreover from assms have "list_all (\<lambda>e. fst e < nextTimer w) (intervals w)"
    by (simp add: timers_ok_def timers_inv_def)
  ultimately have "h < nextTimer w"
    by (auto simp: checkHandles_def list_all_iff)
  with assms show ?thesis
    by (auto simp: startCheckTimer_def stopCheckTimer_def Let_def clearInterval_def)
qed


text \<open>
  C10.  In every state reachable from the constructor, \<^verbatim>\<open>startQueue\<close> with a non-empty
  resolved list starts over: \<open>runtimeQueue\<close> refers to a newly allocated array holding
  the list, so that overwriting any array that existed before the call (the caller's among
  them) leaves the queue as it is; \<open>queueIndex\<close> is 0, \<open>isRunning\<close> is set and
  \<open>isPaused\<close> is cleared; the call emits the start line and the execution of the first
  item, and no completion notification.  At most one silence-check timer is live before
  the call; cancelling it leaves none; after the call the handle held before is not live
  any more and the one live silence-check timer is the new one.
\<close>

theorem startQueue_restart:
  assumes reach: "w = run es (init c)"
    and items: "items = (case p of Some a \<Rightarrow> heap w a | None \<Rightarrow> prompts (config w))"
    and nonempty: "items \<noteq> []"
  shows "queue (startQueue p t1 t2 w) = items \<and>
         runtimeQueue (startQueue p t1 t2 w) = nextRef w \<and>
         (\<forall>a xs. a < nextRef w \<longrightarrow> queue (arrayWrite a xs (startQueue p t1 t2 w)) = items) \<and>
         queueIndex (startQueue p t1 t2 w) = 0 \<and>
         isRunning (startQueue p t1 t2 w) \<and> \<not> isPaused (startQueue p t1 t2 w) \<and>
         out (startQueue p t1 t2 w) =
           out w @ [LogQueueStart (length items), LogExecute 1 (length items) (take 60 (items ! 0)),
                    SendPrompt (items ! 0)] \<and>
         length (checkTimers w) \<le> 1 \<and>
         checkTimers (stopCheckTimer w) = [] \<and>
         (\<forall>h. checkTimer w = Some h \<longrightarrow> h \<notin> set (map fst (intervals (startQueue p t1 t2 w)))) \<and>
         checkTimer (startQueue p t1 t2 w) = Some (nextTimer w) \<and>
         checkTimers (startQueue p t1 t2 w) = [nextTimer w]"
proof -
  let ?u = "w\<lparr>heap := (heap w)(nextRef w := items), nextRef := Suc (nextRef w), runtimeQueue := nextRef w,
          queueIndex := 0, isRunning := True, isPaused := False,
          currentItemSentAt := Some t1, lastActivityTime := Some t2,
          out := out w @ [LogQueueStart (length items), LogExecute 1 (length items) (take 60 (items ! 0)),
                          SendPrompt (items ! 0)],
          awaiting := awaiting w @ [0]\<rparr>"
  have eq: "startQueue p t1 t2 w = startCheckTimer ?u"
    using items nonempty by (rule startQueue_nonempty)
  have ok: "timers_ok w"
    using reach by (simp add: timers_ok_reachable)
  then have oku: "timers_ok ?u"
    by simp
  have 1: "queue (startCheckTimer ?u) = items"
    by (simp add: queue_def startCheckTimer_fields)
  have 2: "\<forall>a xs. a < nextRef w \<longrightarrow> queue (arrayWrite a xs (startCheckTimer ?u)) = items"
    by (simp add: queue_def arrayWrite_def startCheckTimer_fields)
  have 3: "checkTimers (startCheckTimer ?u) = [nextTimer w]"
    using startCheckTimer_one_live [OF oku] by simp
  have 4: "\<forall>h. checkTimer w = Some h \<longrightarrow> h \<notin> set (map fst (intervals (startCheckTimer ?u)))"
    using startCheckTimer_old_handle_dead [OF oku] by simp
  show ?thesis
    unfolding eq using 1 2 3 4 timers_ok_at_most_one [OF ok] stopCheckTimer_none_live [OF ok]
    by (simp add: startCheckTimer_fields)
qed

theorem startQueue_restart_witness:
  "let w = run [StartQueue None 1000 1000, NewArray [''C'', ''D'']]
             (init (default_config\<lparr>prompts := [''A'', ''B'']\<rparr>));
       w' = startQueue (Some 2) 5000 5000 w
   in isRunning w \<and> queue w = [''A'', ''B''] \<and> heap w 2 = [''C'', ''D''] \<and> nextTimer w = 1 \<and>
      queue w' = [''C'', ''D''] \<and> queueIndex w' = 0 \<and> isRunning w' \<and> \<not> isPaused w' \<and>
      queue (arrayWrite 2 [''E''] w') = [''C'', ''D''] \<and>
      out w' = out w @ [LogQueueStart 2, LogExecute 1 2 ''C'', SendPrompt ''C''] \<and>
      checkTimers w' = [1]"
proof -
  let ?es = "[StartQueue None 1000 1000, NewArray [''C'', ''D'']]"
  let ?c = "default_config\<lparr>prompts := [''A'', ''B'']\<rparr>"
  let ?w = "run ?es (init ?c)"
  have c: "prompts ?c = [''A'', ''B'']"
    by simp
  have e: "?w = newArray [''C'', ''D''] (run [StartQueue None 1000 1000] (init ?c))"
    by simp
  have before: "isRunning ?w \<and> queue ?w = [''A'', ''B''] \<and> heap ?w 2 = [''C'', ''D''] \<and>
      nextTimer ?w = 1 \<and> nextRef ?w = 3"
    unfolding e started_AB [OF c] by (simp add: newArray_def queue_def)
  then have items: "[''C'', ''D''] = (case Some 2 of Some a \<Rightarrow> heap ?w a | None \<Rightarrow> prompts (config ?w))"
    by simp
  note r = startQueue_restart [OF refl items, of 5000 5000]
  from r before have "queue (arrayWrite 2 [''E''] (startQueue (Some 2) 5000 5000 ?w)) = [''C'', ''D'']"
    by simp
  with r before show ?thesis
    unfolding Let_def by simp
qed

subsection \<open>The retry policy\<close>

lemma list_all_remove_nth: "list_all P xs \<Longrightarrow> list_all P (remove_nth i xs)"
  by (auto simp: remove_nth_def list_all_iff dest: in_set_takeD in_set_dropD)

lemma list_all_nth: "list_all P xs \<Longrightarrow> i < length xs \<Longrightarrow> P (xs ! i)"
  by (simp add: list_all_length)

lemma retry_ok_upd [simp]:
  "retry_ok (isRunning_update f1 w) = retry_ok w"
  "retry_ok (isPaused_update f2 w) = retry_ok w"
  "retry_ok (queueIndex_update f3 w) = retry_ok w"
  "retry_ok (runtimeQueue_update f4 w) = retry_ok w"
  "retry_ok (lastActivityTime_update f5 w) = retry_ok w"
  "retry_ok (currentItemSentAt_update f6 w) = retry_ok w"
  "retry_ok (config_update f7 w) = retry_ok w"
  "retry_ok (heap_update f8 w) = retry_ok w"
  "retry_ok (nextRef_update f9 w) = retry_ok w"
  "retry_ok (intervals_update f10 w) = retry_ok w"
  "retry_ok (nextTimer_update f11 w) = retry_ok w"
  "retry_ok (checkTimer_update f13 w) = retry_ok w"
  "retry_ok (intervalTimer_update f14 w) = retry_ok w"
  "retry_ok (out_update f12 w) = retry_ok w"
  by (simp_all add: retry_ok_def)

lemma retry_ok_emit [simp]: "retry_ok (emit es w) = retry_ok w"
  by (simp add: emit_def)

lemma retry_ok_stopCheckTimer [simp]: "retry_ok (stopCheckTimer w) = retry_ok w"
  by (simp add: stopCheckTimer_def split: option.splits)

lemma retry_ok_startCheckTimer [simp]: "retry_ok (startCheckTimer w) = retry_ok w"
  by (simp add: startCheckTimer_def Let_def)

lemma retry_ok_onQueueComplete [simp]: "retry_ok (onQueueComplete w) = retry_ok w"
  by (simp add: onQueueComplete_def Let_def)

lemma retry_ok_executeCurrentItem:
  "retry_ok w \<Longrightarrow> n < MAX_RETRIES \<Longrightarrow> retry_ok (executeCurrentItem n t1 t2 w)"
  by (simp add: executeCurrentItem_def Let_def) (simp add: retry_ok_def emit_def)

lemma retry_ok_advanceQueue: "retry_ok w \<Longrightarrow> retry_ok (advanceQueue t1 t2 w)"
  by (simp add: advanceQueue_def Let_def retry_ok_executeCurrentItem MAX_RETRIES_def)

lemma retry_ok_sendSettled:
  "retry_ok w \<Longrightarrow> n < MAX_RETRIES \<Longrightarrow> retry_ok (sendSettled n ok err t1 t2 w)"
  by (simp add: sendSettled_def Let_def retry_ok_advanceQueue)
     (simp add: retry_ok_def emit_def MAX_RETRIES_def)

lemma retry_ok_checkSilence: "retry_ok w \<Longrightarrow> retry_ok (checkSilence t1 t2 s t3 t4 w)"
  by (simp add: checkSilence_def Let_def retry_ok_advanceQueue)

lemma retry_ok_startQueue: "retry_ok w \<Longrightarrow> retry_ok (startQueue p t1 t2 w)"
  by (simp add: startQueue_def Let_def retry_ok_executeCurrentItem MAX_RETRIES_def)

lemma retry_ok_stopInterval [simp]: "retry_ok (stopInterval w) = retry_ok w"
  by (simp add: stopInterval_def split: option.splits)

lemma retry_ok_step: "retry_ok w \<Longrightarrow> retry_ok (step e w)"
proof (cases e)
  case (IntervalTimerFires h t1 t2 s t3 t4)
  assume "retry_ok w"
  then show ?thesis using IntervalTimerFires
    by (auto simp: retry_ok_checkSilence intervalFire_def split: option.splits callback.splits)
next
  case (TimeoutFires i t1 t2)
  assume a: "retry_ok w"
  show ?thesis
  proof (cases "i < length (timeouts w)")
    case True
    from a have "list_all (\<lambda>x. fst x < MAX_RETRIES \<and> snd x = 3000) (timeouts w)"
      by (simp add: retry_ok_def)
    from list_all_nth [OF this True] have n: "fst (timeouts w ! i) < MAX_RETRIES"
      by simp
    from a have "retry_ok (w\<lparr>timeouts := remove_nth i (timeouts w)\<rparr>)"
      by (simp add: retry_ok_def list_all_remove_nth)
    from retry_ok_executeCurrentItem [OF this n] show ?thesis
      using TimeoutFires True by simp
  next
    case False
    with a TimeoutFires show ?thesis by simp
  qed
next
  case (SendSettles i ok err t1 t2)
  assume a: "retry_ok w"
  show ?thesis
  proof (cases "i < length (awaiting w)")
    case True
    from a have "list_all (\<lambda>n. n < MAX_RETRIES) (awaiting w)"
      by (simp add: retry_ok_def)
    from list_all_nth [OF this True] have n: "awaiting w ! i < MAX_RETRIES" .
    from a have "retry_ok (w\<lparr>awaiting := remove_nth i (awaiting w)\<rparr>)"
      by (simp add: retry_ok_def list_all_remove_nth)
    from retry_ok_sendSettled [OF this n] show ?thesis
      using SendSettles True by simp
  next
    case False
    with a SendSettles show ?thesis by simp
  qed
qed (simp_all add: retry_ok_startQueue stopQueue_def startInterval_def Let_def
      stop_def pauseQueue_def resumeQueue_def skipPrompt_def loadConfig_def newArray_def
      retry_ok_executeCurrentItem retry_ok_advanceQueue MAX_RETRIES_def)

lemma retry_ok_init: "retry_ok (init c)"
  by (simp add: init_def loadConfig_def) (simp add: retry_ok_def)

lemma retry_ok_run: "retry_ok w \<Longrightarrow> retry_ok (run es w)"
  by (induction es arbitrary: w) (simp_all add: retry_ok_step)

lemma retry_ok_reachable: "retry_ok (run es (init c))"
  by (simp add: retry_ok_run retry_ok_init)

lemma retry_scheduled:
  "n < MAX_RETRIES - 1 \<Longrightarrow>
   sendSettled n False err t1 t2 w =
     (emit [LogSendFailed (n + 1) MAX_RETRIES err] w)\<lparr>timeouts := timeouts w @ [(n + 1, 3000)]\<rparr>"
  by (simp add: sendSettled_def emit_def Let_def)

lemma attempt_sends_current:
  assumes "isRunning w" and "\<not> isPaused w" and "queueIndex w = k" and "k < length (queue w)"
  shows "out (executeCurrentItem n t1 t2 w) =
           out w @ [LogExecute (k + 1) (length (queue w)) (take 60 (queue w ! k)), SendPrompt (queue w ! k)] \<and>
         awaiting (executeCurrentItem n t1 t2 w) = awaiting w @ [n] \<and>
         timeouts (executeCurrentItem n t1 t2 w) = timeouts w \<and>
         queueIndex (executeCurrentItem n t1 t2 w) = k \<and>
         queue (executeCurrentItem n t1 t2 w) = queue w \<and>
         isRunning (executeCurrentItem n t1 t2 w) \<and> \<not> isPaused (executeCurrentItem n t1 t2 w)"
  using assms by (simp add: executeCurrentItem_def emit_def queue_def Let_def)

lemma last_failure_abandons:
  "queueIndex (sendSettled (MAX_RETRIES - 1) False err t1 t2 w) = queueIndex w + 1 \<and>
   queue (sendSettled (MAX_RETRIES - 1) False err t1 t2 w) = queue w \<and>
   timeouts (sendSettled (MAX_RETRIES - 1) False err t1 t2 w) = timeouts w"
  by (simp add: sendSettled_def Let_def) (simp add: emit_def queue_def)

lemma fresh_attempt_counts_from_zero:
  assumes "isRunning w" and "\<not> isPaused w"
  shows "(queueIndex w + 1 < length (queue w) \<longrightarrow> awaiting (advanceQueue t1 t2 w) = awaiting w @ [0]) \<and>
         (queueIndex w < length (queue w) \<longrightarrow>
            awaiting (resumeQueue t1 t2 (pauseQueue w)) = awaiting w @ [0]) \<and>
         ((case p of Some a \<Rightarrow> heap w a | None \<Rightarrow> prompts (config w)) \<noteq> [] \<longrightarrow>
            awaiting (startQueue p t1 t2 w) = awaiting w @ [0])"
  using assms
  by (simp add: advanceQueue_def resumeQueue_def pauseQueue_def startQueue_def executeCurrentItem_def
      startCheckTimer_def stopCheckTimer_def emit_def queue_def Let_def split: option.splits)

lemma three_failures:
  assumes "isRunning w" and "\<not> isPaused w" and "queueIndex w = k" and "k < length (queue w)"
    and "w' = run [SendSettles (length (awaiting w)) False e1 a1 b1, TimeoutFires (length (timeouts w)) a2 b2,
                   SendSettles (length (awaiting w)) False e2 a3 b3, TimeoutFires (length (timeouts w)) a4 b4,
                   SendSettles (length (awaiting w)) False e3 a5 b5]
                  (executeCurrentItem 0 a0 b0 w)"
  shows "queueIndex w' = k + 1 \<and> queue w' = queue w \<and> timeouts w' = timeouts w \<and>
         out w' = out w @
           [LogExecute (k + 1) (length (queue w)) (take 60 (queue w ! k)), SendPrompt (queue w ! k),
            LogSendFailed 1 MAX_RETRIES e1,
            LogExecute (k + 1) (length (queue w)) (take 60 (queue w ! k)), SendPrompt (queue w ! k),
            LogSendFailed 2 MAX_RETRIES e2,
            LogExecute (k + 1) (length (queue w)) (take 60 (queue w ! k)), SendPrompt (queue w ! k),
            LogSendFailed 3 MAX_RETRIES e3, LogRetryLimit] @
           (if k + 1 < length (queue w)
            then [LogExecute (k + 2) (length (queue w)) (take 60 (queue w ! (k + 1))),
                  SendPrompt (queue w ! (k + 1))]
            else [LogAllDone, ShowInformation (length (queue w))]) \<and>
         awaiting w' = awaiting w @ (if k + 1 < length (queue w) then [0] else [])"
  using assms
  by (simp add: sendSettled_def executeCurrentItem_def advanceQueue_def onQueueComplete_def
      stopCheckTimer_def emit_def queue_def MAX_RETRIES_def Let_def split: option.splits)


lemma resumed_thrice_run:
  "let w = run resumed_thrice (init two_prompts)
   in isRunning w \<and> queueIndex w = 0 \<and> awaiting w = [0, 0, 0, 0] \<and>
      out w = [LogConfigLoaded ''queue'' 2, LogQueueStart 2,
               LogExecute 1 2 ''A'', SendPrompt ''A'', LogPause, LogResume,
               LogExecute 1 2 ''A'', SendPrompt ''A'', LogPause, LogResume,
               LogExecute 1 2 ''A'', SendPrompt ''A'', LogPause, LogResume,
               LogExecute 1 2 ''A'', SendPrompt ''A'']"
  by (simp add: resumed_thrice_def two_prompts_def method_defs Let_def)

lemma skip_during_retry_run:
  "let w = run skip_during_retry (init two_prompts)
   in isRunning w \<and> \<not> isPaused w \<and> queueIndex w = 1 \<and> awaiting w = [1, 2] \<and> timeouts w = [] \<and>
      out w = [LogConfigLoaded ''queue'' 2, LogQueueStart 2,
               LogExecute 1 2 ''A'', SendPrompt ''A'', LogSendFailed 1 3 ''down'',
               LogSkip 1 2, LogExecute 2 2 ''B'', SendPrompt ''B'',
               LogExecute 2 2 ''B'', SendPrompt ''B'',
               LogSendFailed 1 3 ''down'', LogSendFailed 2 3 ''down'',
               LogExecute 2 2 ''B'', SendPrompt ''B'',
               LogExecute 2 2 ''B'', SendPrompt ''B'']"
  by (simp add: skip_during_retry_def two_prompts_def method_defs Let_def)

text \<open>
  C4, as the claim states it, fails.  A resume sends the current item again: after three
  pauses and resumes item A has been sent four times, with no failure at all.  And a
  scheduled retry sends whichever item is current when it fires: A fails once and is
  skipped while its retry is pending, so the retry sends B; with B's own attempts failing
  too, B is sent four times while \<open>queueIndex\<close> stays at 1, and A is never sent again.
\<close>

theorem retry_budget_exceeded:
  "queueIndex (run resumed_thrice (init two_prompts)) = 0 \<and>
   count_list (out (run resumed_thrice (init two_prompts))) (SendPrompt ''A'') = 4 \<and>
   queueIndex (run skip_during_retry (init two_prompts)) = 1 \<and>
   count_list (out (run skip_during_retry (init two_prompts))) (SendPrompt ''A'') = 1 \<and>
   count_list (out (run skip_during_retry (init two_prompts))) (SendPrompt ''B'') = 4"
  using resumed_thrice_run skip_during_retry_run
  by (simp add: Let_def)

text \<open>
  C4, amended.  Let the queue be running, not paused, at item \<open>k\<close>.
  A failed attempt with index \<open>n < MAX_RETRIES - 1\<close> logs the failure and schedules one
  call of \<^verbatim>\<open>_executeCurrentItem(n + 1)\<close> after 3000 ms, and changes nothing else; that call,
  like every attempt, sends item \<open>k\<close> again.  A failed attempt with index
  \<open>MAX_RETRIES - 1\<close> schedules nothing and moves \<open>queueIndex\<close> to \<open>k + 1\<close>, the queue
  itself unchanged.  So three failures in a row send item \<open>k\<close> exactly three times and
  leave the queue at \<open>k + 1\<close> with no retry pending.  An item begun by \<^verbatim>\<open>_advanceQueue\<close>,
  \<^verbatim>\<open>resumeQueue\<close> or \<^verbatim>\<open>startQueue\<close> starts at attempt index 0.  And in every state
  reachable from the constructor, every attempt in flight and every scheduled retry has
  an index below \<open>MAX_RETRIES = 3\<close>, every retry a delay of 3000 ms.
\<close>

theorem retry_policy:
  assumes "isRunning w" and "\<not> isPaused w" and "queueIndex w = k" and "k < length (queue w)"
  shows "(n < MAX_RETRIES - 1 \<longrightarrow>
            sendSettled n False err t1 t2 w =
              (emit [LogSendFailed (n + 1) MAX_RETRIES err] w)\<lparr>timeouts := timeouts w @ [(n + 1, 3000)]\<rparr>) \<and>
         (out (executeCurrentItem n t1 t2 w) =
            out w @ [LogExecute (k + 1) (length (queue w)) (take 60 (queue w ! k)), SendPrompt (queue w ! k)] \<and>
          awaiting (executeCurrentItem n t1 t2 w) = awaiting w @ [n] \<and>
          queueIndex (executeCurrentItem n t1 t2 w) = k) \<and>
         (queueIndex (sendSettled (MAX_RETRIES - 1) False err t1 t2 w) = k + 1 \<and>
          queue (sendSettled (MAX_RETRIES - 1) False err t1 t2 w) = queue w \<and>
          timeouts (sendSettled (MAX_RETRIES - 1) False err t1 t2 w) = timeouts w) \<and>
         (let w' = run [SendSettles (length (awaiting w)) False e1 a1 b1,
                        TimeoutFires (length (timeouts w)) a2 b2,
                        SendSettles (length (awaiting w)) False e2 a3 b3,
                        TimeoutFires (length (timeouts w)) a4 b4,
                        SendSettles (length (awaiting w)) False e3 a5 b5]
                       (executeCurrentItem 0 a0 b0 w)
          in queueIndex w' = k + 1 \<and> queue w' = queue w \<and> timeouts w' = timeouts w \<and>
             out w' = out w @
               [LogExecute (k + 1) (length (queue w)) (take 60 (queue w ! k)), SendPrompt (queue w ! k),
                LogSendFailed 1 MAX_RETRIES e1,
                LogExecute (k + 1) (length (queue w)) (take 60 (queue w ! k)), SendPrompt (queue w ! k),
                LogSendFailed 2 MAX_RETRIES e2,
                LogExecute (k + 1) (length (queue w)) (take 60 (queue w ! k)), SendPrompt (queue w ! k),
                LogSendFailed 3 MAX_RETRIES e3, LogRetryLimit] @
               (if k + 1 < length (queue w)
                then [LogExecute (k + 2) (length (queue w)) (take 60 (queue w ! (k + 1))),
                      SendPrompt (queue w ! (k + 1))]
                else [LogAllDone, ShowInformation (length (queue w))]) \<and>
             awaiting w' = awaiting w @ (if k + 1 < length (queue w) then [0] else [])) \<and>
         (k + 1 < length (queue w) \<longrightarrow> awaiting (advanceQueue t1 t2 w) = awaiting w @ [0]) \<and>
         awaiting (resumeQueue t1 t2 (pauseQueue w)) = awaiting w @ [0] \<and>
         ((case p of Some a \<Rightarrow> heap w a | None \<Rightarrow> prompts (config w)) \<noteq> [] \<longrightarrow>
            awaiting (startQueue p t1 t2 w) = awaiting w @ [0]) \<and>
         list_all (\<lambda>i. i < MAX_RETRIES) (awaiting (run es (init c))) \<and>
         list_all (\<lambda>x. fst x < MAX_RETRIES \<and> snd x = 3000) (timeouts (run es (init c)))"
proof -
  note run = assms
  have 1: "n < MAX_RETRIES - 1 \<longrightarrow>
            sendSettled n False err t1 t2 w =
              (emit [LogSendFailed (n + 1) MAX_RETRIES err] w)\<lparr>timeouts := timeouts w @ [(n + 1, 3000)]\<rparr>"
    by (simp add: retry_scheduled)
  have 2: "out (executeCurrentItem n t1 t2 w) =
            out w @ [LogExecute (k + 1) (length (queue w)) (take 60 (queue w ! k)), SendPrompt (queue w ! k)] \<and>
          awaiting (executeCurrentItem n t1 t2 w) = awaiting w @ [n] \<and>
          queueIndex (executeCurrentItem n t1 t2 w) = k"
    using attempt_sends_current [OF run] by simp
  have 3: "queueIndex (sendSettled (MAX_RETRIES - 1) False err t1 t2 w) = k + 1 \<and>
          queue (sendSettled (MAX_RETRIES - 1) False err t1 t2 w) = queue w \<and>
          timeouts (sendSettled (MAX_RETRIES - 1) False err t1 t2 w) = timeouts w"
    using last_failure_abandons [of err t1 t2 w] run(3) by simp
  note 4 = three_failures [OF run refl, of e1 a1 b1 a2 b2 e2 a3 b3 a4 b4 e3 a5 b5 a0 b0]
  from fresh_attempt_counts_from_zero [OF run(1,2), of t1 t2 p] run(3,4)
  have 5: "(k + 1 < length (queue w) \<longrightarrow> awaiting (advanceQueue t1 t2 w) = awaiting w @ [0]) \<and>
         awaiting (resumeQueue t1 t2 (pauseQueue w)) = awaiting w @ [0] \<and>
         ((case p of Some a \<Rightarrow> heap w a | None \<Rightarrow> prompts (config w)) \<noteq> [] \<longrightarrow>
            awaiting (startQueue p t1 t2 w) = awaiting w @ [0])"
    by simp
  have 6: "list_all (\<lambda>i. i < MAX_RETRIES) (awaiting (run es (init c))) \<and>
         list_all (\<lambda>x. fst x < MAX_RETRIES \<and> snd x = 3000) (timeouts (run es (init c)))"
    using retry_ok_reachable [of es c] by (simp add: retry_ok_def)
  from 1 2 3 4 5 6 show ?thesis
    unfolding Let_def by blast
qed

theorem retry_policy_witness:
  "let w = run [StartQueue None 1000 1000, SendSettles 0 True '''' 1200 1200]
             (init (default_config\<lparr>prompts := [''A'', ''B'']\<rparr>));
       w' = run [SendSettles 0 False ''down'' 2100 2100, TimeoutFires 0 5100 5100,
                 SendSettles 0 False ''down'' 5200 5200, TimeoutFires 0 8200 8200,
                 SendSettles 0 False ''down'' 8300 8300]
              (executeCurrentItem 0 2000 2000 w)
   in isRunning w \<and> \<not> isPaused w \<and> queueIndex w = 0 \<and> queue w = [''A'', ''B''] \<and>
      awaiting w = [] \<and> timeouts w = [] \<and>
      timeouts (sendSettled 0 False ''down'' 2100 2100 w) = [(1, 3000)] \<and>
      queueIndex (sendSettled 2 False ''down'' 2100 2100 w) = 1 \<and>
      queueIndex w' = 1 \<and> queue w' = [''A'', ''B''] \<and> timeouts w' = [] \<and> awaiting w' = [0] \<and>
      out w' = out w @
        [LogExecute 1 2 ''A'', SendPrompt ''A'', LogSendFailed 1 3 ''down'',
         LogExecute 1 2 ''A'', SendPrompt ''A'', LogSendFailed 2 3 ''down'',
         LogExecute 1 2 ''A'', SendPrompt ''A'', LogSendFailed 3 3 ''down'', LogRetryLimit,
         LogExecute 2 2 ''B'', SendPrompt ''B'']"
proof -
  let ?c = "default_config\<lparr>prompts := [''A'', ''B'']\<rparr>"
  let ?w = "run [StartQueue None 1000 1000, SendSettles 0 True '''' 1200 1200] (init ?c)"
  have c: "prompts ?c = [''A'', ''B'']"
    by simp
  have e: "?w = step (SendSettles 0 True '''' 1200 1200) (run [StartQueue None 1000 1000] (init ?c))"
    by simp
  have before: "isRunning ?w \<and> \<not> isPaused ?w \<and> queueIndex ?w = 0 \<and> queue ?w = [''A'', ''B''] \<and>
      awaiting ?w = [] \<and> timeouts ?w = []"
    unfolding e started_AB [OF c] by (simp add: sendSettled_def remove_nth_def queue_def)
  then have h: "isRunning ?w" "\<not> isPaused ?w" "queueIndex ?w = 0" "0 < length (queue ?w)"
    by simp_all
  note r0 = retry_policy [OF h, where n = 0 and err = "''down''" and ?t1.0 = 2100 and ?t2.0 = 2100
      and ?e1.0 = "''down''" and ?e2.0 = "''down''" and ?e3.0 = "''down''"
      and ?a0.0 = 2000 and ?b0.0 = 2000 and ?a1.0 = 2100 and ?b1.0 = 2100 and ?a2.0 = 5100 and ?b2.0 = 5100
      and ?a3.0 = 5200 and ?b3.0 = 5200 and ?a4.0 = 8200 and ?b4.0 = 8200 and ?a5.0 = 8300 and ?b5.0 = 8300]
  from r0 before show ?thesis
    unfolding Let_def by (simp del: run.simps step.simps add: MAX_RETRIES_def emit_def)
qed

subsection \<open>The silence detector\<close>

lemma silence_nonneg:
  assumes "0 \<le> T" and "T \<le> real_of_int (t - x) / 1000"
  shows "x \<le> t"
proof -
  from assms have "0 \<le> real_of_int (t - x) / 1000" by linarith
  then have "0 \<le> real_of_int (t - x)" by (simp add: zero_le_divide_iff)
  then have "0 \<le> t - x" by (simp only: of_int_0_le_iff)
  then show ?thesis by simp
qed

text \<open>The watermark after the update step of a tick.\<close>

lemma raise_only:
  "num (lastActivityTime w) \<le>
   num (lastActivityTime (if latest \<noteq> 0 \<and> latest > num (lastActivityTime w)
                          then w\<lparr>lastActivityTime := Some latest\<rparr> else w))"
  by (simp add: num_def)


text \<open>
  C5.  A silence check never lowers the watermark, whatever the sample holds.  The
  watermark is \<open>lastActivityTime\<close>, read as JavaScript reads it in arithmetic (\<^verbatim>\<open>null\<close> is
  0).  The update step of the check only raises it; when the check goes on to the next item,
  the watermark is set to the clock, which is not below it provided the configured
  timeout is not negative and the clock does not run backwards between the check's reading
  and the execution's.  A check that does not advance the queue needs neither proviso.
\<close>

theorem watermark_monotone:
  "(0 \<le> silenceTimeout (config w) \<and> t2 \<le> t4 \<longrightarrow>
      num (lastActivityTime w) \<le> num (lastActivityTime (checkSilence t1 t2 stats t3 t4 w))) \<and>
   (queueIndex (checkSilence t1 t2 stats t3 t4 w) = queueIndex w \<longrightarrow>
      num (lastActivityTime w) \<le> num (lastActivityTime (checkSilence t1 t2 stats t3 t4 w)))"
proof -
  define latest where "latest = max (or0 (lastActivity stats)) (or0 (lastDomChange stats))"
  define w1 where "w1 = (if latest \<noteq> 0 \<and> latest > num (lastActivityTime w)
                          then w\<lparr>lastActivityTime := Some latest\<rparr> else w)"
  define sil where "sil = real_of_int (t2 - num (lastActivityTime w1)) / 1000"
  have up: "num (lastActivityTime w) \<le> num (lastActivityTime w1)"
    unfolding w1_def by (rule raise_only)
  have cfg: "config w1 = config w"
    by (simp add: w1_def)
  have cases: "checkSilence t1 t2 stats t3 t4 w = w \<or> checkSilence t1 t2 stats t3 t4 w = w1 \<or>
      (silenceTimeout (config w) \<le> sil \<and>
       checkSilence t1 t2 stats t3 t4 w = advanceQueue t3 t4 (emit [LogSilence (round sil)] w1))"
    unfolding checkSilence_def Let_def latest_def [symmetric] w1_def [symmetric] cfg sil_def [symmetric]
    by simp
  have idx: "queueIndex w1 = queueIndex w"
    by (simp add: w1_def)
  show ?thesis
  proof (intro conjI impI)
    assume h: "0 \<le> silenceTimeout (config w) \<and> t2 \<le> t4"
    from cases show "num (lastActivityTime w) \<le> num (lastActivityTime (checkSilence t1 t2 stats t3 t4 w))"
    proof (elim disjE conjE)
      assume "checkSilence t1 t2 stats t3 t4 w = w"
      then show ?thesis by simp
    next
      assume "checkSilence t1 t2 stats t3 t4 w = w1"
      with up show ?thesis by simp
    next
      assume s: "silenceTimeout (config w) \<le> sil"
        and e: "checkSilence t1 t2 stats t3 t4 w = advanceQueue t3 t4 (emit [LogSilence (round sil)] w1)"
      from h s have "num (lastActivityTime w1) \<le> t2"
        unfolding sil_def by (intro silence_nonneg [of "silenceTimeout (config w)"]) simp_all
      with h up have le: "num (lastActivityTime w) \<le> t4" by linarith
      from lastActivityTime_advanceQueue [of t3 t4 "emit [LogSilence (round sil)] w1"]
      show ?thesis
        unfolding e using up le by (auto simp: emit_def num_def)
    qed
  next
    assume q: "queueIndex (checkSilence t1 t2 stats t3 t4 w) = queueIndex w"
    from cases show "num (lastActivityTime w) \<le> num (lastActivityTime (checkSilence t1 t2 stats t3 t4 w))"
    proof (elim disjE conjE)
      assume "checkSilence t1 t2 stats t3 t4 w = w"
      then show ?thesis by simp
    next
      assume "checkSilence t1 t2 stats t3 t4 w = w1"
      with up show ?thesis by simp
    next
      assume e: "checkSilence t1 t2 stats t3 t4 w = advanceQueue t3 t4 (emit [LogSilence (round sil)] w1)"
      from q have False unfolding e by (simp add: emit_def idx)
      then show ?thesis ..
    qed
  qed
qed

theorem watermark_monotone_witness:
  "let w = run [StartQueue None 1000 1000]
             (init (default_config\<lparr>prompts := [''A'', ''B''], silenceTimeout := 5\<rparr>));
       w' = checkSilence 12000 12000 \<lparr>lastActivity = Some 700, lastDomChange = None\<rparr> 12000 12001 w
   in 0 \<le> silenceTimeout (config w) \<and> lastActivityTime w = Some 1000 \<and>
      num (lastActivityTime w) \<le> num (lastActivityTime w') \<and>
      lastActivityTime w' = Some 12001 \<and> queueIndex w' = 1"
proof -
  let ?c = "default_config\<lparr>prompts := [''A'', ''B''], silenceTimeout := 5\<rparr>"
  let ?w = "run [StartQueue None 1000 1000] (init ?c)"
  let ?w' = "checkSilence 12000 12000 \<lparr>lastActivity = Some 700, lastDomChange = None\<rparr> 12000 12001 ?w"
  have c: "prompts ?c = [''A'', ''B'']"
    by simp
  have before: "0 \<le> silenceTimeout (config ?w) \<and> lastActivityTime ?w = Some 1000"
    unfolding started_AB [OF c] by (simp add: default_config_def)
  have after: "lastActivityTime ?w' = Some 12001 \<and> queueIndex ?w' = 1"
    unfolding started_AB [OF c]
    by (simp add: checkSilence_def advanceQueue_def executeCurrentItem_def emit_def queue_def
        num_def or0_def truthy_def default_config_def Let_def)
  from before have h: "0 \<le> silenceTimeout (config ?w) \<and> (12000::int) \<le> 12001"
    by simp
  from watermark_monotone [of ?w 12000 12001 12000 "\<lparr>lastActivity = Some 700, lastDomChange = None\<rparr>" 12000] h
  have "num (lastActivityTime ?w) \<le> num (lastActivityTime ?w')"
    by blast
  with before after show ?thesis
    unfolding Let_def by blast
qed
lemma elapsed_less: "(real_of_int d / 1000 < 10) = (d < 10000)"
proof -
  have "(real_of_int d / 1000 < 10) = (real_of_int d < real_of_int 10000)" by simp
  also have "\<dots> = (d < 10000)" by (simp only: of_int_less_iff)
  finally show ?thesis .
qed

lemma silence_reached: "(30 \<le> real_of_int d / 1000) = (30000 \<le> d)"
proof -
  have "(30 \<le> real_of_int d / 1000) = (real_of_int 30000 \<le> real_of_int d)" by simp
  also have "\<dots> = (30000 \<le> d)" by (simp only: of_int_le_iff)
  finally show ?thesis .
qed

lemma grace_period:
  "t1 - num (currentItemSentAt w) < 10000 \<Longrightarrow> checkSilence t1 t2 stats t3 t4 w = w"
  by (simp add: checkSilence_def Let_def elapsed_less)

text \<open>
  A send records two readings of the clock: \<open>currentItemSentAt\<close> and, after it, the
  watermark.
\<close>

lemma send_records_both_readings:
  assumes "isRunning w" and "\<not> isPaused w" and "queueIndex w < length (queue w)"
  shows "currentItemSentAt (executeCurrentItem n s m w) = Some s \<and>
         lastActivityTime (executeCurrentItem n s m w) = Some m"
  using assms by (simp add: executeCurrentItem_def emit_def Let_def)

lemma started_AB_at:
  "prompts c = [''A'', ''B''] \<Longrightarrow>
   run [StartQueue None s m] (init c) =
   \<lparr>isRunning = True, isPaused = False, queueIndex = 0, runtimeQueue = Suc 0,
    lastActivityTime = Some m, currentItemSentAt = Some s,
    checkTimer = Some 0, intervalTimer = None, config = c,
    heap = (\<lambda>_. [])(Suc 0 := [''A'', ''B'']), nextRef = Suc (Suc 0),
    intervals = [(0, CheckSilence, 5000)], nextTimer = Suc 0,
    timeouts = [], awaiting = [0],
    out = [LogConfigLoaded (mode c) 2, LogQueueStart 2, LogExecute 1 2 ''A'', SendPrompt ''A'']\<rparr>"
  by (simp add: loadConfig_def emit_def startQueue_def executeCurrentItem_def queue_def
      startCheckTimer_def stopCheckTimer_def init_def Let_def)

lemma quiet_tick_early:
  assumes "lastActivityTime w = Some m"
    and "silenceTimeout (config w) = 30"
    and "or0 (lastActivity stats) = 0" and "or0 (lastDomChange stats) = 0"
    and "t2 - m < 30000"
  shows "checkSilence t1 t2 stats t3 t4 w = w"
  using assms by (simp add: checkSilence_def Let_def num_def silence_reached)

lemma quiet_tick_late:
  assumes "isRunning w" and "\<not> isPaused w"
    and "currentItemSentAt w = Some s" and "s \<noteq> 0" and "lastActivityTime w = Some m"
    and "silenceTimeout (config w) = 30"
    and "or0 (lastActivity stats) = 0" and "or0 (lastDomChange stats) = 0"
    and "10000 \<le> t1 - s" and "30000 \<le> t2 - m"
  shows "checkSilence t1 t2 stats t3 t4 w =
           advanceQueue t3 t4 (emit [LogSilence (round (real_of_int (t2 - m) / 1000))] w)"
  using assms by (simp add: checkSilence_def Let_def num_def truthy_def silence_reached elapsed_less)

lemma quiet_ticks_early:
  assumes "lastActivityTime w = Some m"
    and "silenceTimeout (config w) = 30"
    and "or0 (lastActivity stats) = 0" and "or0 (lastDomChange stats) = 0"
    and "map_of (intervals w) h = Some (CheckSilence, p)"
    and "list_all (\<lambda>t. snd t - m < 30000) ts"
  shows "run (map (\<lambda>t. IntervalTimerFires h (fst t) (snd t) stats t3 t4) ts) w = w"
  using assms(6)
proof (induction ts)
  case Nil
  then show ?case by simp
next
  case (Cons t ts)
  then have "snd t - m < 30000" by simp
  with assms have "checkSilence (fst t) (snd t) stats t3 t4 w = w"
    by (intro quiet_tick_early)
  with Cons assms(5) show ?case by simp
qed

lemma run_append: "run (xs @ ys) u = run ys (run xs u)"
  by (induction xs arbitrary: u) simp_all

text \<open>
  C6, as the claim states it, fails.  A queue is started with the two clock readings of
  the send one millisecond apart: \<open>currentItemSentAt = 1000\<close> and watermark 1001.  With
  the default \<open>silenceTimeout\<close> of 30 s and no activity, the silence check at 31000, when
  30 s have elapsed since the item was sent, leaves the queue at item 0: the silence is
  measured from the watermark and is 29.999 s.  The check one millisecond later advances.
\<close>

theorem silence_measured_from_watermark:
  "currentItemSentAt (run [StartQueue None 1000 1001] (init two_prompts)) = Some 1000 \<and>
   lastActivityTime (run [StartQueue None 1000 1001] (init two_prompts)) = Some 1001 \<and>
   silenceTimeout (config (run [StartQueue None 1000 1001] (init two_prompts))) = 30 \<and>
   queueIndex (run [StartQueue None 1000 1001] (init two_prompts)) = 0 \<and>
   checkSilence 31000 31000 quiet 31000 31000 (run [StartQueue None 1000 1001] (init two_prompts)) =
     run [StartQueue None 1000 1001] (init two_prompts) \<and>
   queueIndex (checkSilence 31001 31001 quiet 31001 31001
                 (run [StartQueue None 1000 1001] (init two_prompts))) = 1"
  unfolding started_AB_at [OF two_prompts_prompts]
  by (simp add: two_prompts_def default_config_def checkSilence_def advanceQueue_def
      executeCurrentItem_def emit_def queue_def quiet_def num_def truthy_def or0_def Let_def)

text \<open>
  C6, amended.  Whatever the configuration, a silence check that reads the clock less
  than 10 s after \<open>currentItemSentAt\<close> changes nothing.  Let the queue be running, not
  paused, with \<open>silenceTimeout = 30\<close>, the item sent at \<open>s\<close>, the watermark still at the
  reading \<open>m\<close> the send took after \<open>s\<close>, and a sample that reports no activity.  A check
  whose second clock reading is less than 30 s after \<open>m\<close> changes nothing; a check at
  least 10 s after \<open>s\<close> and 30 s after \<open>m\<close> advances the queue by one item.  When the
  clock did not step back between the two readings of the send (\<open>s \<le> m\<close>), no check
  advances before 30 s have elapsed since the item was sent, and a check that starts
  30 s or more after \<open>m\<close> advances.  Hence over the ticks of the live silence-check timer:
  all ticks before 30 s after \<open>m\<close> leave the state as it is, and the first tick at or
  after them advances the current item.  Every send leaves the state in this form, with
  its own two readings.
\<close>

theorem silence_detector_timing:
  "(t1 - num (currentItemSentAt w) < 10000 \<longrightarrow> checkSilence t1 t2 stats t3 t4 w = w) \<and>
   (isRunning w \<and> \<not> isPaused w \<and> currentItemSentAt w = Some s \<and> s \<noteq> 0 \<and>
    lastActivityTime w = Some m \<and> silenceTimeout (config w) = 30 \<and>
    or0 (lastActivity stats) = 0 \<and> or0 (lastDomChange stats) = 0 \<longrightarrow>
      (t2 - m < 30000 \<longrightarrow> checkSilence t1 t2 stats t3 t4 w = w) \<and>
      (10000 \<le> t1 - s \<and> 30000 \<le> t2 - m \<longrightarrow>
         checkSilence t1 t2 stats t3 t4 w =
           advanceQueue t3 t4 (emit [LogSilence (round (real_of_int (t2 - m) / 1000))] w) \<and>
         queueIndex (checkSilence t1 t2 stats t3 t4 w) = queueIndex w + 1) \<and>
      (s \<le> m \<and> t2 - s < 30000 \<longrightarrow> checkSilence t1 t2 stats t3 t4 w = w) \<and>
      (s \<le> m \<and> 30000 \<le> t1 - m \<and> t1 \<le> t2 \<longrightarrow>
         queueIndex (checkSilence t1 t2 stats t3 t4 w) = queueIndex w + 1) \<and>
      (map_of (intervals w) h = Some (CheckSilence, p) \<and> list_all (\<lambda>t. snd t - m < 30000) ts \<and>
       10000 \<le> t1 - s \<and> 30000 \<le> t2 - m \<longrightarrow>
         run (map (\<lambda>t. IntervalTimerFires h (fst t) (snd t) stats t3 t4) ts) w = w \<and>
         queueIndex (run (map (\<lambda>t. IntervalTimerFires h (fst t) (snd t) stats t3 t4) ts @
                            [IntervalTimerFires h t1 t2 stats t3 t4]) w) = queueIndex w + 1)) \<and>
   (isRunning w \<and> \<not> isPaused w \<and> queueIndex w < length (queue w) \<longrightarrow>
      currentItemSentAt (executeCurrentItem n s m w) = Some s \<and>
      lastActivityTime (executeCurrentItem n s m w) = Some m)"
proof (intro conjI impI)
  assume "t1 - num (currentItemSentAt w) < 10000"
  then show "checkSilence t1 t2 stats t3 t4 w = w" by (rule grace_period)
next
  assume a: "isRunning w \<and> \<not> isPaused w \<and> currentItemSentAt w = Some s \<and> s \<noteq> 0 \<and>
    lastActivityTime w = Some m \<and> silenceTimeout (config w) = 30 \<and>
    or0 (lastActivity stats) = 0 \<and> or0 (lastDomChange stats) = 0"
  have late: "checkSilence t1 t2 stats t3 t4 w =
           advanceQueue t3 t4 (emit [LogSilence (round (real_of_int (t2 - m) / 1000))] w)"
    if "10000 \<le> t1 - s" and "30000 \<le> t2 - m"
    using a that by (intro quiet_tick_late) blast+
  have early: "checkSilence t1 t2 stats t3 t4 w = w" if "t2 - m < 30000"
    using a that by (intro quiet_tick_early) blast+
  {
    assume "t2 - m < 30000"
    then show "checkSilence t1 t2 stats t3 t4 w = w" by (rule early)
  }
  {
    assume b: "10000 \<le> t1 - s \<and> 30000 \<le> t2 - m"
    then show l: "checkSilence t1 t2 stats t3 t4 w =
           advanceQueue t3 t4 (emit [LogSilence (round (real_of_int (t2 - m) / 1000))] w)"
      by (intro late) blast+
    show "queueIndex (checkSilence t1 t2 stats t3 t4 w) = queueIndex w + 1"
      unfolding l by (simp add: emit_def)
  }
  {
    assume "s \<le> m \<and> t2 - s < 30000"
    then have "t2 - m < 30000" by linarith
    then show "checkSilence t1 t2 stats t3 t4 w = w" by (rule early)
  }
  {
    assume "s \<le> m \<and> 30000 \<le> t1 - m \<and> t1 \<le> t2"
    then have "10000 \<le> t1 - s" and "30000 \<le> t2 - m" by linarith+
    then have "checkSilence t1 t2 stats t3 t4 w =
           advanceQueue t3 t4 (emit [LogSilence (round (real_of_int (t2 - m) / 1000))] w)"
      by (rule late)
    then show "queueIndex (checkSilence t1 t2 stats t3 t4 w) = queueIndex w + 1"
      by (simp add: emit_def)
  }
  {
    assume c: "map_of (intervals w) h = Some (CheckSilence, p) \<and> list_all (\<lambda>t. snd t - m < 30000) ts \<and>
       10000 \<le> t1 - s \<and> 30000 \<le> t2 - m"
    with a show e: "run (map (\<lambda>t. IntervalTimerFires h (fst t) (snd t) stats t3 t4) ts) w = w"
      by (intro quiet_ticks_early) blast+
    from c have l: "checkSilence t1 t2 stats t3 t4 w =
           advanceQueue t3 t4 (emit [LogSilence (round (real_of_int (t2 - m) / 1000))] w)"
      by (intro late) blast+
    show "queueIndex (run (map (\<lambda>t. IntervalTimerFires h (fst t) (snd t) stats t3 t4) ts @
                            [IntervalTimerFires h t1 t2 stats t3 t4]) w) = queueIndex w + 1"
      unfolding run_append e using c by (simp add: l emit_def)
  }
next
  assume "isRunning w \<and> \<not> isPaused w \<and> queueIndex w < length (queue w)"
  then show "currentItemSentAt (executeCurrentItem n s m w) = Some s"
    and "lastActivityTime (executeCurrentItem n s m w) = Some m"
    using send_records_both_readings [of w n s m] by blast+
qed

theorem silence_detector_timing_witness:
  "let w = run [StartQueue None 1000 1001] (init two_prompts);
       early = [(6000, 6000), (11000, 11000), (16000, 16000), (21000, 21000), (26000, 26000),
                (31000, 31000)];
       ticks = map (\<lambda>t. IntervalTimerFires 0 (fst t) (snd t) quiet 36000 36000) early
   in isRunning w \<and> \<not> isPaused w \<and> currentItemSentAt w = Some 1000 \<and> lastActivityTime w = Some 1001 \<and>
      silenceTimeout (config w) = 30 \<and> map_of (intervals w) 0 = Some (CheckSilence, 5000) \<and>
      queueIndex w = 0 \<and>
      checkSilence 6000 6000 quiet 36000 36000 w = w \<and>
      run ticks w = w \<and>
      queueIndex (run (ticks @ [IntervalTimerFires 0 36000 36000 quiet 36000 36000]) w) = 1"
proof -
  let ?w = "run [StartQueue None 1000 1001] (init two_prompts)"
  let ?early = "[(6000, 6000), (11000, 11000), (16000, 16000), (21000, 21000), (26000, 26000),
                 (31000::int, 31000::int)]"
  have before: "isRunning ?w \<and> \<not> isPaused ?w \<and> currentItemSentAt ?w = Some 1000 \<and>
      lastActivityTime ?w = Some 1001 \<and> silenceTimeout (config ?w) = 30 \<and>
      map_of (intervals ?w) 0 = Some (CheckSilence, 5000) \<and> queueIndex ?w = 0"
    unfolding started_AB_at [OF two_prompts_prompts] by (simp add: two_prompts_def default_config_def)
  have q: "or0 (lastActivity quiet) = 0 \<and> or0 (lastDomChange quiet) = 0"
    by (simp add: quiet_def or0_def)
  have ts: "list_all (\<lambda>t. snd t - 1001 < 30000) ?early"
    by simp
  note r1 = silence_detector_timing [where ?t1.0 = 6000 and w = ?w and ?t2.0 = 6000 and stats = quiet
      and ?t3.0 = 36000 and ?t4.0 = 36000 and s = 1000 and m = 1001 and h = 0 and p = 5000 and ts = "[]"]
  note r2 = silence_detector_timing [where ?t1.0 = 36000 and w = ?w and ?t2.0 = 36000 and stats = quiet
      and ?t3.0 = 36000 and ?t4.0 = 36000 and s = 1000 and m = 1001 and h = 0 and p = 5000 and ts = ?early]
  from r1 before have g: "checkSilence 6000 6000 quiet 36000 36000 ?w = ?w"
    by (simp add: num_def)
  from r2 before q ts
  have "run (map (\<lambda>t. IntervalTimerFires 0 (fst t) (snd t) quiet 36000 36000) ?early) ?w = ?w \<and>
        queueIndex (run (map (\<lambda>t. IntervalTimerFires 0 (fst t) (snd t) quiet 36000 36000) ?early @
                          [IntervalTimerFires 0 36000 36000 quiet 36000 36000]) ?w) = queueIndex ?w + 1"
    by (simp del: run.simps step.simps)
  with before g show ?thesis
    unfolding Let_def by (simp del: run.simps step.simps)
qed

subsection \<open>Reloading the configuration\<close>






lemma reload_then_advanceQueue:
  "runState (advanceQueue t1 t2 (loadConfig c w)) = runState (advanceQueue t1 t2 w)"
  by (simp add: loadConfig_def advanceQueue_def executeCurrentItem_def onQueueComplete_def stopCheckTimer_def
      emit_def runState_def queue_def Let_def split: option.splits)










end
